theory Spec2Isabelle
  imports Main "HOL-Library.Sublist"
begin

section \<open>Strings, paths and Python sets\<close>

text \<open>
  A \<open>pathlib.Path\<close> is modelled by its string representation \<open>str(path)\<close>: on POSIX two
  paths are equal exactly when their strings are. \<open>os.sep\<close> is \<open>/\<close>.
\<close>

type_synonym path = string

text \<open>Python's \<open>a in b\<close> on two strings: \<open>a\<close> occurs in \<open>b\<close> as a contiguous substring.\<close>

fun str_in :: "string \<Rightarrow> string \<Rightarrow> bool" where
  "str_in a [] = (a = [])"
| "str_in a (c # cs) = (prefix a (c # cs) \<or> str_in a cs)"

text \<open>
  A Python \<open>set\<close> is a list without repetitions. Python leaves the iteration order of a
  set open; the model iterates in list order and new members go to the end.
\<close>

definition set_add :: "'a \<Rightarrow> 'a list \<Rightarrow> 'a list" where
  "set_add x xs = (if x \<in> set xs then xs else xs @ [x])"

definition set_union :: "'a list \<Rightarrow> 'a list \<Rightarrow> 'a list" where
  "set_union xs ys = fold set_add ys xs"

definition set_minus :: "'a list \<Rightarrow> 'a list \<Rightarrow> 'a list" where
  "set_minus xs rs = filter (\<lambda>x. x \<notin> set rs) xs"

section \<open>The environment: variables and the filesystem\<close>

text \<open>
  What the program asks of the operating system is a parameter of the model, one field
  for each library call of \<open>licenser.py\<close>:
  \<^item> \<open>expand\<close>: \<open>os.path.expandvars\<close> on a string that contains a dollar sign;
  \<^item> \<open>mk_path\<close>: \<open>pathlib.Path(s)\<close>, the normalised path of a string;
  \<^item> \<open>is_dir\<close>, \<open>is_file\<close>: \<open>Path.is_dir\<close>/\<open>os.path.isdir\<close> and
    \<open>Path.is_file\<close>/\<open>os.path.isfile\<close> (both follow symbolic links);
  \<^item> \<open>path_exists\<close>: \<open>os.path.exists\<close>;
  \<^item> \<open>iterdir\<close>: \<open>Path.iterdir\<close>, the entries of a directory, or \<open>None\<close> when
    the listing raises (the path is no directory, is missing or may not be read);
  \<^item> \<open>glob\<close>: \<open>Path.glob(pattern)\<close>, the matches of a pattern below a directory, or
    \<open>None\<close> when it raises (an absolute or an empty pattern);
  \<^item> \<open>resolve_path\<close>: \<open>Path(p).expanduser().resolve()\<close>.
  The filesystem is a snapshot: it does not change during a run.
\<close>

record env =
  expand :: "string \<Rightarrow> string"
  mk_path :: "string \<Rightarrow> path"
  is_dir :: "path \<Rightarrow> bool"
  is_file :: "path \<Rightarrow> bool"
  path_exists :: "path \<Rightarrow> bool"
  iterdir :: "path \<Rightarrow> path list option"
  glob :: "path \<Rightarrow> string \<Rightarrow> path list option"
  resolve_path :: "path \<Rightarrow> path"

text \<open>\<open>os.path.expandvars\<close> returns its argument as it is when it has no dollar sign.\<close>

definition expandvars :: "env \<Rightarrow> string \<Rightarrow> string" where
  "expandvars e s = (if CHR ''$'' \<in> set s then expand e s else s)"

section \<open>PathSet\<close>

record PathSet =
  dirs :: "path list"
  files :: "path list"
  globs :: "string list"

definition empty_ps :: PathSet where
  "empty_ps = \<lparr>dirs = [], files = [], globs = []\<rparr>"

text \<open>
  The body of the loop of \<open>PathSet.add\<close> for one source. \<open>source[-1]\<close> is read only
  when the source contains a period, so never on the empty string.
\<close>

definition add_one :: "env \<Rightarrow> string \<Rightarrow> PathSet \<Rightarrow> PathSet" where
  "add_one e source0 ps =
     (let source = expandvars e source0 in
      if CHR ''*'' \<in> set source then ps\<lparr>globs := set_add source (globs ps)\<rparr>
      else
        let p = mk_path e source in
        if is_dir e p \<or> (\<not> is_file e p \<and> (CHR ''.'' \<notin> set source \<or> last source = CHR ''/''))
        then ps\<lparr>dirs := set_add p (dirs ps)\<rparr>
        else ps\<lparr>files := set_add p (files ps)\<rparr>)"

text \<open>
  \<open>PathSet.add\<close> on an iterable of sources; \<open>ensure_iterable\<close> makes of a single
  string the list of that string. A source may be a path: it is read as its string.
\<close>

definition add :: "env \<Rightarrow> string list \<Rightarrow> PathSet \<Rightarrow> PathSet" where
  "add e sources ps = fold (add_one e) sources ps"

text \<open>The constructor \<open>PathSet(sources)\<close>.\<close>

definition PathSet_init :: "env \<Rightarrow> string list \<Rightarrow> PathSet" where
  "PathSet_init e sources = add e sources empty_ps"

text \<open>
  \<open>PathSet.prune\<close>: the three collecting loops, then the three set differences. The
  result is the new state of \<open>self\<close>; \<open>prune_ps\<close> is only read.
\<close>

definition prune :: "PathSet \<Rightarrow> PathSet \<Rightarrow> PathSet" where
  "prune self prune_ps =
     (let prune_from_dirs =
            concat (map (\<lambda>prune_path. filter (str_in prune_path) (dirs self)) (dirs prune_ps));
          prune_from_files =
            concat (map (\<lambda>prune_path. filter (str_in prune_path) (files self)) (dirs prune_ps))
            @ concat (map (\<lambda>prune_path. filter (\<lambda>source_path. prune_path = source_path) (files self))
                (files prune_ps));
          prune_from_globs =
            concat (map (\<lambda>prune_glob. filter (\<lambda>source_glob. prune_glob = source_glob) (globs self))
                (globs prune_ps))
      in \<lparr>dirs = set_minus (dirs self) prune_from_dirs,
          files = set_minus (files self) prune_from_files,
          globs = set_minus (globs self) prune_from_globs\<rparr>)"

text \<open>
  PathSet objects live in a store, addressed by references: a method call mutates the
  object at \<open>self\<close> and leaves every other object as it is.
\<close>

type_synonym ref = nat

record heap =
  objs :: "ref \<Rightarrow> PathSet"
  next_ref :: ref

definition prune_m :: "heap \<Rightarrow> ref \<Rightarrow> ref \<Rightarrow> heap" where
  "prune_m h self other = h\<lparr>objs := (objs h)(self := prune (objs h self) (objs h other))\<rparr>"

section \<open>The license mutation\<close>




section \<open>Resolution and validation\<close>

text \<open>\<open>set(...)\<close> built from a sequence: the members in order of first occurrence.\<close>

definition to_set :: "'a list \<Rightarrow> 'a list" where
  "to_set xs = set_union [] xs"

definition resolve_paths :: "env \<Rightarrow> path list \<Rightarrow> path list" where
  "resolve_paths e paths = to_set (map (resolve_path e) paths)"

definition resolve :: "env \<Rightarrow> PathSet \<Rightarrow> PathSet" where
  "resolve e ps = ps\<lparr>dirs := resolve_paths e (dirs ps), files := resolve_paths e (files ps)\<rparr>"

text \<open>
  The exceptions of the library that end a traversal: \<open>Path.iterdir\<close> on a path that
  cannot be listed (\<open>NotADirectoryError\<close>, \<open>FileNotFoundError\<close>, \<open>PermissionError\<close>)
  and \<open>Path.glob\<close> on a pattern it refuses (\<open>NotImplementedError\<close> on an absolute
  pattern, \<open>ValueError\<close> on an empty one).
\<close>

datatype failure = ListError path | GlobError path string

text \<open>
  The loop of \<open>PathSet.resolve_globs\<close>: \<open>paths |= set(path.glob(glob))\<close> for every
  pattern, stopping at the first pattern that raises.
\<close>

fun glob_all :: "env \<Rightarrow> path \<Rightarrow> string list \<Rightarrow> path list \<Rightarrow> failure + path list" where
  "glob_all e p [] paths = Inr paths"
| "glob_all e p (g # gs) paths =
     (case glob e p g of
        None \<Rightarrow> Inl (GlobError p g)
      | Some ms \<Rightarrow> glob_all e p gs (set_union paths ms))"

text \<open>
  \<open>PathSet.resolve_globs\<close>: the union of the matches of every pattern below \<open>p\<close>,
  then resolved.
\<close>

definition resolve_globs :: "env \<Rightarrow> path \<Rightarrow> string list \<Rightarrow> failure + path list" where
  "resolve_globs e p gs =
     (case glob_all e p gs [] of
        Inl f \<Rightarrow> Inl f
      | Inr paths \<Rightarrow> Inr (resolve_paths e paths))"

text \<open>
  The source raises a plain \<open>Exception\<close> at two places of \<open>validate_paths\<close>, told apart
  by their message: "path does not exists" and "path does not represents a valid object".
\<close>

datatype error = PathNotFound path | PathKind path

fun validate_paths :: "env \<Rightarrow> path list \<Rightarrow> error + unit" where
  "validate_paths e [] = Inr ()"
| "validate_paths e (p # ps) =
     (if \<not> path_exists e p then Inl (PathNotFound p)
      else if \<not> is_dir e p \<and> \<not> is_file e p then Inl (PathKind p)
      else validate_paths e ps)"

definition validate :: "env \<Rightarrow> PathSet \<Rightarrow> error + unit" where
  "validate e ps =
     (case validate_paths e (dirs ps) of
        Inl err \<Rightarrow> Inl err
      | Inr _ \<Rightarrow> validate_paths e (files ps))"

section \<open>Traversal\<close>

text \<open>
  The PathSet \<open>s\<close> that \<open>_traverse\<close> builds for one directory of the pruned source set:
  the constructor on the globs, then the subdirectories, then the resolved matches. The
  listing of the directory comes first and may raise, then the globs, which may raise.
\<close>

definition working_set :: "env \<Rightarrow> PathSet \<Rightarrow> path \<Rightarrow> failure + PathSet" where
  "working_set e source_ps source_path =
     (let s = PathSet_init e (globs source_ps) in
      case iterdir e source_path of
        None \<Rightarrow> Inl (ListError source_path)
      | Some entries \<Rightarrow>
          (let s = add e (filter (is_dir e) entries) s in
           case resolve_globs e source_path (globs source_ps) of
             Inl f \<Rightarrow> Inl f
           | Inr matches \<Rightarrow> Inr (add e matches s)))"

text \<open>The prune set after \<open>prune_ps.add(resolve_globs(source_path, prune_ps.globs))\<close>.\<close>

definition extend_prune :: "env \<Rightarrow> path \<Rightarrow> PathSet \<Rightarrow> failure + PathSet" where
  "extend_prune e source_path prune_ps =
     (case resolve_globs e source_path (globs prune_ps) of
        Inl f \<Rightarrow> Inl f
      | Inr matches \<Rightarrow> Inr (add e matches prune_ps))"

text \<open>
  What a call of the generator \<open>_traverse\<close> leaves when it is consumed to its end: the
  files yielded, in order, the state of the prune set, and the exception that ended it,
  if one did. The prune set is one object shared by all calls: it is passed in and the
  state it is left in is passed on.
\<close>

type_synonym outcome = "path list \<times> PathSet \<times> failure option"

text \<open>
  The loop over \<open>source_ps.dirs\<close> in \<open>_traverse\<close>. \<open>rec\<close> is the recursive call one
  level deeper; \<open>None\<close> when that call does not come back. An exception ends the loop:
  what was yielded before it stays yielded.
\<close>

fun loop_dirs ::
  "(PathSet \<Rightarrow> PathSet \<Rightarrow> outcome option) \<Rightarrow> env \<Rightarrow> PathSet \<Rightarrow> path list \<Rightarrow> PathSet
     \<Rightarrow> outcome option" where
  "loop_dirs rec e source_ps [] prune_ps = Some ([], prune_ps, None)"
| "loop_dirs rec e source_ps (source_path # rest) prune_ps =
     (case working_set e source_ps source_path of
        Inl f \<Rightarrow> Some ([], prune_ps, Some f)
      | Inr s \<Rightarrow>
          (case extend_prune e source_path prune_ps of
             Inl f \<Rightarrow> Some ([], prune_ps, Some f)
           | Inr prune1 \<Rightarrow>
               (case rec s prune1 of
                  None \<Rightarrow> None
                | Some (ys, prune2, r) \<Rightarrow>
                    (case r of
                       Some f \<Rightarrow> Some (ys, prune2, Some f)
                     | None \<Rightarrow>
                         (case loop_dirs rec e source_ps rest prune2 of
                            None \<Rightarrow> None
                          | Some (zs, prune3, r') \<Rightarrow> Some (ys @ zs, prune3, r'))))))"

text \<open>
  The inner generator \<open>_traverse\<close>, with fuel for the depth of the recursion: a
  filesystem with a cycle of links has no bound on it. With no fuel left the result is
  \<open>None\<close>: the call has not come back.
\<close>

fun traverse_rec ::
  "nat \<Rightarrow> env \<Rightarrow> bool \<Rightarrow> nat \<Rightarrow> PathSet \<Rightarrow> PathSet \<Rightarrow> outcome option" where
  "traverse_rec 0 e recurse depth source_ps prune_ps = None"
| "traverse_rec (Suc fuel) e recurse depth source_ps prune_ps =
     (let source_ps = prune source_ps prune_ps in
      if \<not> recurse \<and> depth > 0 then Some (files source_ps, prune_ps, None)
      else
        (case loop_dirs (\<lambda>s p. traverse_rec fuel e recurse (depth + 1) s p) e source_ps
                (dirs source_ps) prune_ps of
           None \<Rightarrow> None
         | Some (ys, prune1, r) \<Rightarrow> Some (files source_ps @ ys, prune1, r)))"

text \<open>The two default fills of \<open>traverse\<close>.\<close>

definition default_fill :: "env \<Rightarrow> PathSet \<Rightarrow> PathSet" where
  "default_fill e source_ps =
     (let s1 = (if length (files source_ps) = 0 \<and> length (dirs source_ps) = 0
                then add e [''.''] source_ps else source_ps)
      in if length (files s1) = 0 \<and> length (globs s1) = 0 then add e [''*''] s1 else s1)"

text \<open>
  \<open>traverse\<close> on the contents of the two copies: an error of the validation, raised
  before anything is yielded, or the files yielded together with the exception of the
  library that ended the traversal, if one did.
\<close>

definition traverse ::
  "nat \<Rightarrow> env \<Rightarrow> PathSet \<Rightarrow> PathSet \<Rightarrow> bool \<Rightarrow> (error + path list \<times> failure option) option" where
  "traverse fuel e self prune_ps recurse =
     (let source_ps = resolve e (default_fill e self) in
      case validate e source_ps of
        Inl err \<Rightarrow> Some (Inl err)
      | Inr _ \<Rightarrow>
          (case traverse_rec fuel e recurse 0 source_ps (resolve e prune_ps) of
             None \<Rightarrow> None
           | Some (ys, _, r) \<Rightarrow> Some (Inr (ys, r))))"

text \<open>
  \<open>traverse\<close> on objects: \<open>copy.deepcopy\<close> allocates a new object with the same
  contents, and every later write goes to the two copies. The result is the store after
  the generator is exhausted, and what it produced.
\<close>

definition deepcopy :: "heap \<Rightarrow> ref \<Rightarrow> heap \<times> ref" where
  "deepcopy h r =
     (h\<lparr>objs := (objs h)(next_ref h := objs h r), next_ref := Suc (next_ref h)\<rparr>, next_ref h)"

definition put :: "heap \<Rightarrow> ref \<Rightarrow> PathSet \<Rightarrow> heap" where
  "put h r v = h\<lparr>objs := (objs h)(r := v)\<rparr>"

definition traverse_m ::
  "nat \<Rightarrow> env \<Rightarrow> heap \<Rightarrow> ref \<Rightarrow> ref \<Rightarrow> bool
     \<Rightarrow> (heap \<times> (error + path list \<times> failure option)) option" where
  "traverse_m fuel e h self prune_ps recurse =
     (let (h1, source_c) = deepcopy h self;
          (h2, prune_c) = deepcopy h1 prune_ps;
          h3 = put h2 source_c (resolve e (default_fill e (objs h2 source_c)))
      in case validate e (objs h3 source_c) of
           Inl err \<Rightarrow> Some (h3, Inl err)
         | Inr _ \<Rightarrow>
             (let h4 = put h3 prune_c (resolve e (objs h3 prune_c)) in
              case traverse_rec fuel e recurse 0 (objs h4 source_c) (objs h4 prune_c) of
                None \<Rightarrow> None
              | Some (ys, prune1, r) \<Rightarrow>
                  Some (put (put h4 source_c (prune (objs h4 source_c) (objs h4 prune_c)))
                          prune_c prune1, Inr (ys, r))))"

section \<open>Notions used in the statements\<close>

text \<open>Where one source goes: the decision of \<open>add\<close>, on the expanded source.\<close>

definition dir_like :: "env \<Rightarrow> string \<Rightarrow> bool" where
  "dir_like e s \<longleftrightarrow>
     is_dir e (mk_path e s) \<or> (\<not> is_file e (mk_path e s) \<and> (CHR ''.'' \<notin> set s \<or> last s = CHR ''/''))"

text \<open>A path that \<open>validate_paths\<close> rejects.\<close>

definition invalid_path :: "env \<Rightarrow> path \<Rightarrow> bool" where
  "invalid_path e p \<longleftrightarrow> \<not> path_exists e p \<or> (\<not> is_dir e p \<and> \<not> is_file e p)"

text \<open>One PathSet holds at least what another holds.\<close>

definition ps_le :: "PathSet \<Rightarrow> PathSet \<Rightarrow> bool" where
  "ps_le a b \<longleftrightarrow>
     set (dirs a) \<subseteq> set (dirs b) \<and> set (files a) \<subseteq> set (files b) \<and> set (globs a) \<subseteq> set (globs b)"

text \<open>The source \<open>x\<close>, once passed to \<open>add\<close>, is a member of the PathSet.\<close>

definition holds :: "env \<Rightarrow> string \<Rightarrow> PathSet \<Rightarrow> bool" where
  "holds e x ps \<longleftrightarrow>
     (if CHR ''*'' \<in> set (expandvars e x) then expandvars e x \<in> set (globs ps)
      else mk_path e (expandvars e x) \<in> set (dirs ps) \<union> set (files ps))"

text \<open>
  A path whose string passes through \<open>add\<close> unchanged: no \<open>*\<close>, nothing to expand,
  and already normalised.
\<close>

definition plain :: "env \<Rightarrow> string \<Rightarrow> bool" where
  "plain e x \<longleftrightarrow> CHR ''*'' \<notin> set x \<and> CHR ''$'' \<notin> set x \<and> mk_path e x = x"





section \<open>Example data\<close>

definition heap_example :: heap where
  "heap_example =
     \<lparr>objs = (\<lambda>r. if r = 0
         then \<lparr>dirs = [''/a/b'', ''/c''], files = [''/a/bc/f'', ''/x.py'', ''/y.py''],
               globs = [''*.py'', ''*.md'']\<rparr>
         else \<lparr>dirs = [''/a/b''], files = [''/x.py''], globs = [''*.md'']\<rparr>),
      next_ref = 2\<rparr>"


text \<open>
  A filesystem for the examples. The working directory is \<open>/w\<close>; it holds the
  directory \<open>proj\<close> with \<open>a.py\<close>, \<open>build/x.py\<close> and \<open>sub/b.py\<close>, a named pipe
  \<open>pipe\<close> and a socket \<open>app.sock\<close>. No variable is set, there is no symbolic link and
  no home directory to expand.
\<close>

definition ex_dirs :: "path list" where
  "ex_dirs = [''/w'', ''/w/proj'', ''/w/proj/build'', ''/w/proj/sub'']"

definition ex_files :: "path list" where
  "ex_files = [''/w/proj/a.py'', ''/w/proj/build/x.py'', ''/w/proj/sub/b.py'']"

definition ex_special :: "path list" where
  "ex_special = [''/w/pipe'', ''/w/app.sock'']"

definition ex_abs :: "path \<Rightarrow> path" where
  "ex_abs p = (if p = ''.'' then ''/w'' else if take 1 p = ''/'' then p else ''/w/'' @ p)"

definition ex_norm :: "string \<Rightarrow> path" where
  "ex_norm s = (if s = [] then ''.'' else if 1 < length s \<and> last s = CHR ''/'' then butlast s else s)"

definition ex_entries :: "path \<Rightarrow> path list" where
  "ex_entries d =
     (if ex_abs d = ''/w'' then [''/w/app.sock'', ''/w/pipe'', ''/w/proj'']
      else if ex_abs d = ''/w/proj'' then [''/w/proj/a.py'', ''/w/proj/build'', ''/w/proj/sub'']
      else if ex_abs d = ''/w/proj/build'' then [''/w/proj/build/x.py'']
      else if ex_abs d = ''/w/proj/sub'' then [''/w/proj/sub/b.py'']
      else [])"

text \<open>Only a directory can be listed.\<close>

definition ex_iterdir :: "path \<Rightarrow> path list option" where
  "ex_iterdir d = (if ex_abs d \<in> set ex_dirs then Some (ex_entries d) else None)"

definition ex_py :: "path \<Rightarrow> bool" where
  "ex_py p = suffix ''.py'' p"

definition ex_matches :: "path \<Rightarrow> string \<Rightarrow> path list" where
  "ex_matches d g =
     (if g = ''*'' then ex_entries d
      else if g = ''*.py'' then filter ex_py (ex_entries d)
      else if g = ''*/*.py'' then
        concat (map (\<lambda>c. filter ex_py (ex_entries c)) (filter (\<lambda>c. c \<in> set ex_dirs) (ex_entries d)))
      else [])"

text \<open>An empty pattern and an absolute pattern are refused.\<close>

definition ex_glob :: "path \<Rightarrow> string \<Rightarrow> path list option" where
  "ex_glob d g = (if g = [] \<or> take 1 g = ''/'' then None else Some (ex_matches d g))"

definition ex_env :: env where
  "ex_env =
     \<lparr>expand = (\<lambda>s. s),
      mk_path = ex_norm,
      is_dir = (\<lambda>p. ex_abs p \<in> set ex_dirs),
      is_file = (\<lambda>p. ex_abs p \<in> set ex_files),
      path_exists = (\<lambda>p. ex_abs p \<in> set (ex_dirs @ ex_files @ ex_special)),
      iterdir = ex_iterdir,
      glob = ex_glob,
      resolve_path = ex_abs\<rparr>"

text \<open>The two PathSets of the scenario \<open>sources = ["proj/"]\<close>, \<open>prune = ["proj/build"]\<close>.\<close>

definition heap_scenario :: heap where
  "heap_scenario =
     \<lparr>objs = (\<lambda>r. if r = 0 then \<lparr>dirs = [''proj''], files = [], globs = []\<rparr>
                   else \<lparr>dirs = [''proj/build''], files = [], globs = []\<rparr>),
      next_ref = 2\<rparr>"


section \<open>Substrings and sets\<close>

lemma str_in_iff: "str_in a b \<longleftrightarrow> (\<exists>ps ss. b = ps @ a @ ss)"
proof (induction b)
  case Nil
  then show ?case by simp
next
  case (Cons c cs)
  show ?case
  proof
    assume "str_in a (c # cs)"
    then consider "prefix a (c # cs)" | "str_in a cs" by auto
    then show "\<exists>ps ss. c # cs = ps @ a @ ss"
    proof cases
      case 1
      then obtain ss where "c # cs = a @ ss" by (auto simp: prefix_def)
      then have "c # cs = [] @ a @ ss" by simp
      then show ?thesis by blast
    next
      case 2
      with Cons.IH obtain ps ss where "cs = ps @ a @ ss" by blast
      then have "c # cs = (c # ps) @ a @ ss" by simp
      then show ?thesis by blast
    qed
  next
    assume "\<exists>ps ss. c # cs = ps @ a @ ss"
    then obtain ps ss where eq: "c # cs = ps @ a @ ss" by blast
    show "str_in a (c # cs)"
    proof (cases ps)
      case Nil
      with eq have "prefix a (c # cs)" by (simp add: prefix_def)
      then show ?thesis by simp
    next
      case (Cons p ps')
      with eq have "cs = ps' @ a @ ss" by simp
      with Cons.IH have "str_in a cs" by blast
      then show ?thesis by simp
    qed
  qed
qed



lemma set_set_add: "set (set_add x xs) = insert x (set xs)"
  by (auto simp: set_add_def)

lemma distinct_set_add: "distinct xs \<Longrightarrow> distinct (set_add x xs)"
  by (simp add: set_add_def)

lemma set_set_minus: "set (set_minus xs rs) = set xs - set rs"
  by (auto simp: set_minus_def)

lemma distinct_set_minus: "distinct xs \<Longrightarrow> distinct (set_minus xs rs)"
  by (simp add: set_minus_def)

lemma set_set_union: "set (set_union xs ys) = set xs \<union> set ys"
  unfolding set_union_def by (induction ys arbitrary: xs) (auto simp: set_set_add)

lemma distinct_set_union: "distinct xs \<Longrightarrow> distinct (set_union xs ys)"
  unfolding set_union_def by (induction ys arbitrary: xs) (auto simp: distinct_set_add)

section \<open>Pruning\<close>

lemma dirs_prune:
  "set (dirs (prune s p)) = {d \<in> set (dirs s). \<not> (\<exists>q \<in> set (dirs p). str_in q d)}"
  by (auto simp: prune_def Let_def set_set_minus)

lemma files_prune:
  "set (files (prune s p)) =
     {f \<in> set (files s). \<not> ((\<exists>q \<in> set (dirs p). str_in q f) \<or> f \<in> set (files p))}"
  by (auto simp: prune_def Let_def set_set_minus)

lemma globs_prune:
  "set (globs (prune s p)) = {g \<in> set (globs s). g \<notin> set (globs p)}"
  by (auto simp: prune_def Let_def set_set_minus)

text \<open>
  C1. \<open>prune(self, other)\<close> removes from \<open>self.dirs\<close> exactly the directories whose
  string contains the string of some directory of \<open>other\<close> as a substring, from
  \<open>self.files\<close> exactly the files whose string contains the string of some directory of
  \<open>other\<close> or equals some file of \<open>other\<close>, from \<open>self.globs\<close> exactly the patterns
  equal to some pattern of \<open>other\<close>; the object \<open>other\<close>, a second PathSet, is left as
  it was.
\<close>

theorem prune_removes_exactly:
  "set (dirs (objs (prune_m h self other) self)) =
     set (dirs (objs h self)) - {d. \<exists>q \<in> set (dirs (objs h other)). \<exists>ps ss. d = ps @ q @ ss}
   \<and> set (files (objs (prune_m h self other) self)) =
     set (files (objs h self)) -
       {f. (\<exists>q \<in> set (dirs (objs h other)). \<exists>ps ss. f = ps @ q @ ss) \<or> f \<in> set (files (objs h other))}
   \<and> set (globs (objs (prune_m h self other) self)) =
     set (globs (objs h self)) - {g. g \<in> set (globs (objs h other))}
   \<and> (other \<noteq> self \<longrightarrow> objs (prune_m h self other) other = objs h other)"
  by (auto simp: prune_m_def dirs_prune files_prune globs_prune str_in_iff)

theorem prune_removes_exactly_witness:
  "(1::nat) \<noteq> 0
   \<and> objs (prune_m heap_example 0 1) 1 = objs heap_example 1
   \<and> objs (prune_m heap_example 0 1) 0 = \<lparr>dirs = [''/c''], files = [''/y.py''], globs = [''*.py'']\<rparr>"
  using prune_removes_exactly [of heap_example 0 1]
  by (simp add: heap_example_def prune_m_def prune_def set_minus_def)

section \<open>License insertion\<close>











section \<open>Classification\<close>

lemma add_Nil: "add e [] ps = ps"
  by (simp add: add_def)

lemma add_Cons: "add e (x # xs) ps = add e xs (add_one e x ps)"
  by (simp add: add_def)

lemma add_append: "add e (xs @ ys) ps = add e ys (add e xs ps)"
  by (simp add: add_def)

lemma add_one_glob:
  "CHR ''*'' \<in> set (expandvars e x) \<Longrightarrow>
     add_one e x ps = ps\<lparr>globs := set_add (expandvars e x) (globs ps)\<rparr>"
  by (simp add: add_one_def Let_def)

lemma add_one_dir:
  "CHR ''*'' \<notin> set (expandvars e x) \<Longrightarrow> dir_like e (expandvars e x) \<Longrightarrow>
     add_one e x ps = ps\<lparr>dirs := set_add (mk_path e (expandvars e x)) (dirs ps)\<rparr>"
  by (auto simp: add_one_def Let_def dir_like_def)

lemma add_one_file:
  "CHR ''*'' \<notin> set (expandvars e x) \<Longrightarrow> \<not> dir_like e (expandvars e x) \<Longrightarrow>
     add_one e x ps = ps\<lparr>files := set_add (mk_path e (expandvars e x)) (files ps)\<rparr>"
  by (auto simp: add_one_def Let_def dir_like_def)

lemma globs_add_one:
  "set (globs (add_one e x ps)) =
     set (globs ps) \<union> (if CHR ''*'' \<in> set (expandvars e x) then {expandvars e x} else {})"
  by (auto simp: add_one_def Let_def set_set_add)

lemma dirs_add_one:
  "set (dirs (add_one e x ps)) =
     set (dirs ps) \<union>
       (if CHR ''*'' \<notin> set (expandvars e x) \<and> dir_like e (expandvars e x)
        then {mk_path e (expandvars e x)} else {})"
  by (auto simp: add_one_def Let_def set_set_add dir_like_def)

lemma files_add_one:
  "set (files (add_one e x ps)) =
     set (files ps) \<union>
       (if CHR ''*'' \<notin> set (expandvars e x) \<and> \<not> dir_like e (expandvars e x)
        then {mk_path e (expandvars e x)} else {})"
  by (auto simp: add_one_def Let_def set_set_add dir_like_def)

lemma globs_add:
  "set (globs (add e xs ps)) =
     set (globs ps) \<union> {expandvars e x |x. x \<in> set xs \<and> CHR ''*'' \<in> set (expandvars e x)}"
  by (induction xs arbitrary: ps) (auto simp: add_Nil add_Cons globs_add_one)

lemma dirs_add:
  "set (dirs (add e xs ps)) =
     set (dirs ps) \<union>
       {mk_path e (expandvars e x) |x.
          x \<in> set xs \<and> CHR ''*'' \<notin> set (expandvars e x) \<and> dir_like e (expandvars e x)}"
  by (induction xs arbitrary: ps) (auto simp: add_Nil add_Cons dirs_add_one)

lemma files_add:
  "set (files (add e xs ps)) =
     set (files ps) \<union>
       {mk_path e (expandvars e x) |x.
          x \<in> set xs \<and> CHR ''*'' \<notin> set (expandvars e x) \<and> \<not> dir_like e (expandvars e x)}"
  by (induction xs arbitrary: ps) (auto simp: add_Nil add_Cons files_add_one)

section \<open>The example filesystem\<close>

lemma ex_expandvars: "expandvars ex_env s = s"
  by (simp add: expandvars_def ex_env_def)

lemma ex_kinds:
  "is_dir ex_env p \<longleftrightarrow> ex_abs p \<in> set ex_dirs"
  "is_file ex_env p \<longleftrightarrow> ex_abs p \<in> set ex_files"
  "path_exists ex_env p \<longleftrightarrow> ex_abs p \<in> set (ex_dirs @ ex_files @ ex_special)"
  "mk_path ex_env s = ex_norm s"
  "resolve_path ex_env p = ex_abs p"
  "iterdir ex_env p = ex_iterdir p"
  "glob ex_env p g = ex_glob p g"
  by (simp_all add: ex_env_def)

lemmas ex_simps =
  ex_expandvars ex_kinds ex_norm_def ex_abs_def ex_dirs_def ex_files_def ex_special_def

text \<open>
  C3 (amended). A specifier is classified on its expansion, in this order: with a
  \<open>*\<close> it is a glob whatever the filesystem holds; else, when it is a directory, a
  directory; else, when it is not a regular file and it has no period or ends in the
  separator, a directory; else a file.
\<close>

theorem add_classifies:
  "add e [x] ps =
     (if CHR ''*'' \<in> set (expandvars e x) then ps\<lparr>globs := set_add (expandvars e x) (globs ps)\<rparr>
      else if is_dir e (mk_path e (expandvars e x))
        then ps\<lparr>dirs := set_add (mk_path e (expandvars e x)) (dirs ps)\<rparr>
      else if \<not> is_file e (mk_path e (expandvars e x))
               \<and> (CHR ''.'' \<notin> set (expandvars e x) \<or> last (expandvars e x) = CHR ''/'')
        then ps\<lparr>dirs := set_add (mk_path e (expandvars e x)) (dirs ps)\<rparr>
      else ps\<lparr>files := set_add (mk_path e (expandvars e x)) (files ps)\<rparr>)"
  by (simp add: add_Cons add_Nil add_one_def Let_def)

theorem add_classifies_witness:
  "add ex_env [''*.py''] empty_ps = \<lparr>dirs = [], files = [], globs = [''*.py'']\<rparr>
   \<and> add ex_env [''proj/''] empty_ps = \<lparr>dirs = [''proj''], files = [], globs = []\<rparr>
   \<and> add ex_env [''nothere''] empty_ps = \<lparr>dirs = [''nothere''], files = [], globs = []\<rparr>
   \<and> add ex_env [''nothere.txt''] empty_ps = \<lparr>dirs = [], files = [''nothere.txt''], globs = []\<rparr>
   \<and> add ex_env [''proj/a.py''] empty_ps = \<lparr>dirs = [], files = [''proj/a.py''], globs = []\<rparr>"
proof -
  have 1: "add ex_env [''*.py''] empty_ps = \<lparr>dirs = [], files = [], globs = [''*.py'']\<rparr>"
    using add_classifies [of ex_env "''*.py''" empty_ps]
    by (simp add: ex_simps empty_ps_def set_add_def)
  have 2: "add ex_env [''proj/''] empty_ps = \<lparr>dirs = [''proj''], files = [], globs = []\<rparr>"
    using add_classifies [of ex_env "''proj/''" empty_ps]
    by (simp add: ex_simps empty_ps_def set_add_def)
  have 3: "add ex_env [''nothere''] empty_ps = \<lparr>dirs = [''nothere''], files = [], globs = []\<rparr>"
    using add_classifies [of ex_env "''nothere''" empty_ps]
    by (simp add: ex_simps empty_ps_def set_add_def)
  have 4: "add ex_env [''nothere.txt''] empty_ps = \<lparr>dirs = [], files = [''nothere.txt''], globs = []\<rparr>"
    using add_classifies [of ex_env "''nothere.txt''" empty_ps]
    by (simp add: ex_simps empty_ps_def set_add_def)
  have 5: "add ex_env [''proj/a.py''] empty_ps = \<lparr>dirs = [], files = [''proj/a.py''], globs = []\<rparr>"
    using add_classifies [of ex_env "''proj/a.py''" empty_ps]
    by (simp add: ex_simps empty_ps_def set_add_def)
  from 1 2 3 4 5 show ?thesis by blast
qed

text \<open>
  The named pipe \<open>pipe\<close> exists, is no directory and has no \<open>*\<close>: a rule that
  makes a directory only of what is a directory or does not exist makes it a file;
  \<open>add\<close> makes it a directory.
\<close>

theorem add_existing_special_counterexample:
  "CHR ''*'' \<notin> set ''pipe''
   \<and> path_exists ex_env (mk_path ex_env ''pipe'')
   \<and> \<not> is_dir ex_env (mk_path ex_env ''pipe'')
   \<and> add ex_env [''pipe''] empty_ps = \<lparr>dirs = [''pipe''], files = [], globs = []\<rparr>"
proof -
  have "add ex_env [''pipe''] empty_ps = \<lparr>dirs = [''pipe''], files = [], globs = []\<rparr>"
    by (simp add: add_Cons add_Nil add_one_def Let_def ex_simps empty_ps_def set_add_def)
  moreover have "path_exists ex_env (mk_path ex_env ''pipe'')" by (simp add: ex_simps)
  moreover have "\<not> is_dir ex_env (mk_path ex_env ''pipe'')" by (simp add: ex_simps)
  ultimately show ?thesis by simp
qed

section \<open>Validation\<close>

lemma find_append_case:
  "find P (xs @ ys) = (case find P xs of None \<Rightarrow> find P ys | Some x \<Rightarrow> Some x)"
  by (induction xs) simp_all

lemma validate_paths_find:
  "validate_paths e ps =
     (case find (invalid_path e) ps of
        None \<Rightarrow> Inr ()
      | Some p \<Rightarrow> Inl (if path_exists e p then PathKind p else PathNotFound p))"
  by (induction ps) (auto simp: invalid_path_def)

lemma validate_find:
  "validate e ps =
     (case find (invalid_path e) (dirs ps @ files ps) of
        None \<Rightarrow> Inr ()
      | Some p \<Rightarrow> Inl (if path_exists e p then PathKind p else PathNotFound p))"
  by (simp add: validate_def validate_paths_find find_append_case split: option.splits)

lemma traverse_error_iff:
  "traverse fuel e src pr r = Some (Inl err) \<longleftrightarrow> validate e (resolve e (default_fill e src)) = Inl err"
  by (auto simp: traverse_def Let_def split: sum.splits option.splits)

text \<open>
  C7 (amended). \<open>validate\<close> raises if and only if some path of \<open>dirs\<close> or \<open>files\<close> does
  not exist or is neither a regular file nor a directory, and the exception is that of the
  first such path, the directories before the files: not found when the path does not
  exist, wrong kind when it exists. \<open>traverse\<close> fails with a validation error exactly
  when the validation of the filled and resolved source set does, whatever the prune set
  holds, and then nothing has been yielded.
\<close>

theorem validate_first_offender:
  "validate e ps =
     (case find (invalid_path e) (dirs ps @ files ps) of
        None \<Rightarrow> Inr ()
      | Some p \<Rightarrow> Inl (if path_exists e p then PathKind p else PathNotFound p))
   \<and> (traverse fuel e src pr r = Some (Inl err)
        \<longleftrightarrow> validate e (resolve e (default_fill e src)) = Inl err)"
  using validate_find [of e ps] traverse_error_iff [of fuel e src pr r err] by blast

theorem validate_first_offender_witness:
  "validate ex_env \<lparr>dirs = [''/w/proj''], files = [''/w/app.sock'', ''/w/nothere.txt''], globs = []\<rparr>
     = Inl (PathKind ''/w/app.sock'')
   \<and> traverse 3 ex_env (PathSet_init ex_env [''proj/'']) (PathSet_init ex_env [''nothere'', ''pipe'']) False
     = Some (Inr ([''/w/proj/a.py''], None))"
proof -
  let ?ps = "\<lparr>dirs = [''/w/proj''], files = [''/w/app.sock'', ''/w/nothere.txt''], globs = []\<rparr>"
  have "find (invalid_path ex_env) (dirs ?ps @ files ?ps) = Some ''/w/app.sock''"
    by (simp add: invalid_path_def ex_simps)
  moreover have "path_exists ex_env ''/w/app.sock''" by (simp add: ex_simps)
  ultimately have 1: "validate ex_env ?ps = Inl (PathKind ''/w/app.sock'')"
    using validate_first_offender [of ex_env ?ps] by simp
  have 2: "traverse 3 ex_env (PathSet_init ex_env [''proj/'']) (PathSet_init ex_env [''nothere'', ''pipe''])
      False = Some (Inr ([''/w/proj/a.py''], None))"
    by code_simp
  from 1 2 show ?thesis by blast
qed

text \<open>
  The source set of \<open>nothere\<close> and \<open>app.sock\<close>: the socket exists and is neither a
  regular file nor a directory, yet the error is the one of the missing directory.
\<close>

theorem validate_one_error_counterexample:
  "files (resolve ex_env (PathSet_init ex_env [''nothere'', ''app.sock''])) = [''/w/app.sock'']
   \<and> path_exists ex_env ''/w/app.sock''
   \<and> \<not> is_dir ex_env ''/w/app.sock'' \<and> \<not> is_file ex_env ''/w/app.sock''
   \<and> validate ex_env (resolve ex_env (PathSet_init ex_env [''nothere'', ''app.sock'']))
       = Inl (PathNotFound ''/w/nothere'')"
  by code_simp

section \<open>The default fill\<close>

lemma expandvars_plain: "CHR ''$'' \<notin> set s \<Longrightarrow> expandvars e s = s"
  by (simp add: expandvars_def)

lemma add_star: "add e [''*''] s = s\<lparr>globs := set_add ''*'' (globs s)\<rparr>"
  by (simp add: add_Cons add_Nil add_one_def Let_def expandvars_def)

lemma add_dot:
  "add e [''.''] s =
     (if is_dir e (mk_path e ''.'') \<or> \<not> is_file e (mk_path e ''.'') \<and> False
      then s\<lparr>dirs := set_add (mk_path e ''.'') (dirs s)\<rparr>
      else s\<lparr>files := set_add (mk_path e ''.'') (files s)\<rparr>)"
  by (simp add: add_Cons add_Nil add_one_def Let_def expandvars_def)

lemma default_fill_init:
  "default_fill e (PathSet_init e []) = default_fill e (PathSet_init e [''.''])"
  by (simp add: default_fill_def PathSet_init_def add_Nil add_dot add_star empty_ps_def set_add_def Let_def)

text \<open>
  C6. On the copy of the source set: with no directory and no file, the working directory
  \<open>.\<close> is added, as a directory specifier (the working directory is a directory); with
  then no file and no glob, the glob \<open>*\<close> is added. So traversing the empty specifier
  set is traversing \<open>["."]\<close>, and both work on the set of \<open>.\<close> and \<open>*\<close>.
\<close>

theorem default_fill_empty_is_cwd:
  "(files s = [] \<and> dirs s = [] \<and> is_dir e (mk_path e ''.'') \<longrightarrow>
      dirs (default_fill e s) = [mk_path e ''.''] \<and> files (default_fill e s) = [])
   \<and> (files s \<noteq> [] \<or> dirs s \<noteq> [] \<longrightarrow>
      dirs (default_fill e s) = dirs s \<and> files (default_fill e s) = files s)
   \<and> globs (default_fill e s) =
      (if files (default_fill e s) = [] \<and> globs s = [] then [''*''] else globs s)
   \<and> (is_dir e (mk_path e ''.'') \<longrightarrow>
      default_fill e (PathSet_init e []) = \<lparr>dirs = [mk_path e ''.''], files = [], globs = [''*'']\<rparr>
      \<and> default_fill e (PathSet_init e [''.'']) = \<lparr>dirs = [mk_path e ''.''], files = [], globs = [''*'']\<rparr>)
   \<and> traverse fuel e (PathSet_init e []) pr r = traverse fuel e (PathSet_init e [''.'']) pr r"
proof (intro conjI)
  show "files s = [] \<and> dirs s = [] \<and> is_dir e (mk_path e ''.'') \<longrightarrow>
      dirs (default_fill e s) = [mk_path e ''.''] \<and> files (default_fill e s) = []"
    by (simp add: default_fill_def add_dot add_star set_add_def Let_def)
  show "files s \<noteq> [] \<or> dirs s \<noteq> [] \<longrightarrow>
      dirs (default_fill e s) = dirs s \<and> files (default_fill e s) = files s"
    by (auto simp: default_fill_def add_dot add_star set_add_def Let_def)
  show "globs (default_fill e s) =
      (if files (default_fill e s) = [] \<and> globs s = [] then [''*''] else globs s)"
    by (auto simp: default_fill_def add_dot add_star set_add_def Let_def)
  show "is_dir e (mk_path e ''.'') \<longrightarrow>
      default_fill e (PathSet_init e []) = \<lparr>dirs = [mk_path e ''.''], files = [], globs = [''*'']\<rparr>
      \<and> default_fill e (PathSet_init e [''.'']) = \<lparr>dirs = [mk_path e ''.''], files = [], globs = [''*'']\<rparr>"
    by (simp add: default_fill_def PathSet_init_def add_Nil add_dot add_star empty_ps_def set_add_def Let_def)
  show "traverse fuel e (PathSet_init e []) pr r = traverse fuel e (PathSet_init e [''.'']) pr r"
    by (simp add: traverse_def default_fill_init)
qed

theorem default_fill_empty_is_cwd_witness:
  "is_dir ex_env (mk_path ex_env ''.'')
   \<and> default_fill ex_env (PathSet_init ex_env []) = \<lparr>dirs = [''.''], files = [], globs = [''*'']\<rparr>
   \<and> traverse 3 ex_env (PathSet_init ex_env [''.'']) (PathSet_init ex_env []) False = Some (Inr ([''/w/app.sock''], None))
   \<and> traverse 3 ex_env (PathSet_init ex_env []) (PathSet_init ex_env []) False = Some (Inr ([''/w/app.sock''], None))"
proof -
  have d: "is_dir ex_env (mk_path ex_env ''.'')" by (simp add: ex_simps)
  have n: "mk_path ex_env ''.'' = ''.''" by (simp add: ex_simps)
  have t: "traverse 3 ex_env (PathSet_init ex_env [''.'']) (PathSet_init ex_env []) False = Some (Inr ([''/w/app.sock''], None))"
    by code_simp
  from d n t default_fill_empty_is_cwd [of empty_ps ex_env 3 "PathSet_init ex_env []" False]
  show ?thesis by simp
qed

section \<open>The caller's objects\<close>

lemma traverse_m_result:
  "prune_ps \<noteq> next_ref h \<Longrightarrow>
     map_option snd (traverse_m fuel e h self prune_ps r) =
       traverse fuel e (objs h self) (objs h prune_ps) r"
  by (auto simp: traverse_m_def traverse_def deepcopy_def put_def Let_def
      split: sum.splits option.splits prod.splits)

lemma traverse_m_frame:
  "traverse_m fuel e h self prune_ps r = Some (h', res) \<Longrightarrow> x < next_ref h \<Longrightarrow>
     objs h' x = objs h x \<and> next_ref h' = Suc (Suc (next_ref h))"
  by (auto simp: traverse_m_def deepcopy_def put_def Let_def
      split: sum.splits option.splits prod.splits)

text \<open>
  C8. Consuming \<open>traverse\<close> to the end leaves the caller's source and prune objects
  with the sets they had before the call, and a second traversal of the same objects
  produces the same result.
\<close>

theorem traverse_keeps_callers_sets:
  assumes "self < next_ref h" and "prune_ps < next_ref h"
    and "traverse_m fuel e h self prune_ps recurse = Some (h', res)"
  shows "objs h' self = objs h self \<and> objs h' prune_ps = objs h prune_ps
    \<and> map_option snd (traverse_m fuel e h' self prune_ps recurse) = Some res"
proof -
  from assms have same: "objs h' self = objs h self" "objs h' prune_ps = objs h prune_ps"
    and nxt: "next_ref h' = Suc (Suc (next_ref h))"
    using traverse_m_frame by blast+
  from assms(2) nxt have "prune_ps \<noteq> next_ref h'" "prune_ps \<noteq> next_ref h" by simp_all
  then have "map_option snd (traverse_m fuel e h' self prune_ps recurse)
      = map_option snd (traverse_m fuel e h self prune_ps recurse)"
    by (simp add: traverse_m_result same)
  with assms(3) same show ?thesis by simp
qed

theorem traverse_keeps_callers_sets_witness:
  "\<exists>h'. traverse_m 5 ex_env heap_scenario 0 1 True
          = Some (h', Inr ([''/w/proj/a.py'', ''/w/proj/sub/b.py''], None))
     \<and> objs h' 0 = \<lparr>dirs = [''proj''], files = [], globs = []\<rparr>
     \<and> objs h' 1 = \<lparr>dirs = [''proj/build''], files = [], globs = []\<rparr>
     \<and> map_option snd (traverse_m 5 ex_env h' 0 1 True)
          = Some (Inr ([''/w/proj/a.py'', ''/w/proj/sub/b.py''], None))"
proof -
  have "traverse 5 ex_env \<lparr>dirs = [''proj''], files = [], globs = []\<rparr>
          \<lparr>dirs = [''proj/build''], files = [], globs = []\<rparr> True
        = Some (Inr ([''/w/proj/a.py'', ''/w/proj/sub/b.py''], None))"
    by code_simp
  then have "map_option snd (traverse_m 5 ex_env heap_scenario 0 1 True)
        = Some (Inr ([''/w/proj/a.py'', ''/w/proj/sub/b.py''], None))"
    using traverse_m_result [of 1 heap_scenario 5 ex_env 0 True]
    by (simp add: heap_scenario_def)
  then obtain h' where run: "traverse_m 5 ex_env heap_scenario 0 1 True
        = Some (h', Inr ([''/w/proj/a.py'', ''/w/proj/sub/b.py''], None))"
    by auto
  have "0 < next_ref heap_scenario" "1 < next_ref heap_scenario"
    by (simp_all add: heap_scenario_def)
  from traverse_keeps_callers_sets [OF this run] run show ?thesis
    by (simp add: heap_scenario_def)
qed

section \<open>The prune set during a traversal\<close>

lemma ps_le_refl: "ps_le a a"
  by (simp add: ps_le_def)

lemma ps_le_trans: "ps_le a b \<Longrightarrow> ps_le b c \<Longrightarrow> ps_le a c"
  by (auto simp: ps_le_def)

lemma add_grows: "ps_le ps (add e xs ps)"
  by (auto simp: ps_le_def dirs_add files_add globs_add)

lemma add_holds: "x \<in> set xs \<Longrightarrow> holds e x (add e xs ps)"
  by (auto simp: holds_def dirs_add files_add globs_add)

lemma holds_mono: "ps_le a b \<Longrightarrow> holds e x a \<Longrightarrow> holds e x b"
  by (auto simp: holds_def ps_le_def split: if_splits)

lemma extend_prune_Inr:
  assumes "extend_prune e d p = Inr q"
  obtains ms where "resolve_globs e d (globs p) = Inr ms" and "q = add e ms p"
  using assms by (auto simp: extend_prune_def split: sum.splits)

lemma extend_prune_grows: "extend_prune e d p = Inr q \<Longrightarrow> ps_le p q"
  by (erule extend_prune_Inr) (simp add: add_grows)

lemma loop_dirs_Cons_Some:
  assumes "loop_dirs rec e src (d # ds) p = Some (ys, p', r)"
  obtains (list_fails) f where "working_set e src d = Inl f" "ys = []" "p' = p" "r = Some f"
  | (glob_fails) ws f where "working_set e src d = Inr ws" "extend_prune e d p = Inl f"
      "ys = []" "p' = p" "r = Some f"
  | (call_fails) ws q f where "working_set e src d = Inr ws" "extend_prune e d p = Inr q"
      "rec ws q = Some (ys, p', Some f)" "r = Some f"
  | (goes_on) ws q ys1 p1 ys2 where "working_set e src d = Inr ws" "extend_prune e d p = Inr q"
      "rec ws q = Some (ys1, p1, None)" "loop_dirs rec e src ds p1 = Some (ys2, p', r)"
      "ys = ys1 @ ys2"
proof (cases "working_set e src d")
  case (Inl f)
  with assms have "ys = []" "p' = p" "r = Some f" by auto
  with Inl show ?thesis by (rule list_fails)
next
  case ws: (Inr ws)
  show ?thesis
  proof (cases "extend_prune e d p")
    case (Inl f)
    with assms ws have "ys = []" "p' = p" "r = Some f" by auto
    with ws Inl show ?thesis by (rule glob_fails)
  next
    case q: (Inr q)
    show ?thesis
    proof (cases "rec ws q")
      case None
      with assms ws q have False by simp
      then show ?thesis ..
    next
      case (Some res)
      obtain ys1 p1 r1 where res: "res = (ys1, p1, r1)" by (cases res) auto
      show ?thesis
      proof (cases r1)
        case (Some f)
        with assms ws q \<open>rec ws q = Some res\<close> res
        have "rec ws q = Some (ys, p', Some f)" "r = Some f" by auto
        with ws q show ?thesis by (rule call_fails)
      next
        case None
        note r1 = None
        show ?thesis
        proof (cases "loop_dirs rec e src ds p1")
          case None
          with assms ws q \<open>rec ws q = Some res\<close> res r1 have False by simp
          then show ?thesis ..
        next
          case (Some res2)
          obtain ys2 p2 r2 where res2: "res2 = (ys2, p2, r2)" by (cases res2) auto
          from assms ws q \<open>rec ws q = Some res\<close> res r1 Some res2
          have eq: "ys = ys1 @ ys2" "p' = p2" "r = r2" by auto
          from \<open>rec ws q = Some res\<close> res r1 have 1: "rec ws q = Some (ys1, p1, None)" by simp
          from Some res2 eq have 2: "loop_dirs rec e src ds p1 = Some (ys2, p', r)" by simp
          from ws q 1 2 eq(1) show ?thesis by (rule goes_on)
        qed
      qed
    qed
  qed
qed

lemma loop_dirs_Cons_done:
  assumes "loop_dirs rec e src (d # ds) p = Some (ys, p', None)"
  obtains ws q ys1 p1 ys2 where "working_set e src d = Inr ws" "extend_prune e d p = Inr q"
      "rec ws q = Some (ys1, p1, None)" "loop_dirs rec e src ds p1 = Some (ys2, p', None)"
      "ys = ys1 @ ys2"
  using assms by (cases rule: loop_dirs_Cons_Some) simp_all

lemma loop_dirs_grows:
  assumes rec: "\<And>s q ys q' r. rec s q = Some (ys, q', r) \<Longrightarrow> ps_le q q'"
  shows "loop_dirs rec e src ds p = Some (zs, p', r) \<Longrightarrow> ps_le p p'"
proof (induction ds arbitrary: p zs)
  case Nil
  then show ?case by (simp add: ps_le_refl)
next
  case (Cons d ds)
  from Cons.prems show ?case
  proof (cases rule: loop_dirs_Cons_Some)
    case list_fails
    then show ?thesis by (simp add: ps_le_refl)
  next
    case glob_fails
    then show ?thesis by (simp add: ps_le_refl)
  next
    case (call_fails ws q f)
    from call_fails(2) have "ps_le p q" by (rule extend_prune_grows)
    moreover from call_fails(3) have "ps_le q p'" by (rule rec)
    ultimately show ?thesis by (rule ps_le_trans)
  next
    case (goes_on ws q ys1 p1 ys2)
    from goes_on(2) have "ps_le p q" by (rule extend_prune_grows)
    moreover from goes_on(3) have "ps_le q p1" by (rule rec)
    moreover from goes_on(4) have "ps_le p1 p'" by (rule Cons.IH)
    ultimately show ?thesis by (blast intro: ps_le_trans)
  qed
qed

lemma traverse_rec_Suc_Some:
  assumes "traverse_rec (Suc fuel) e rc depth s p = Some (ys, p', r)"
  obtains (stops) "\<not> rc" "depth > 0" "ys = files (prune s p)" "p' = p" "r = None"
  | (descends) zs where "rc \<or> depth = 0"
      "loop_dirs (traverse_rec fuel e rc (depth + 1)) e (prune s p) (dirs (prune s p)) p = Some (zs, p', r)"
      "ys = files (prune s p) @ zs"
proof (cases "\<not> rc \<and> depth > 0")
  case True
  with assms have "ys = files (prune s p)" "p' = p" "r = None" by (auto simp: Let_def)
  with True show ?thesis by (intro stops) simp_all
next
  case False
  show ?thesis
  proof (cases "loop_dirs (traverse_rec fuel e rc (depth + 1)) e (prune s p) (dirs (prune s p)) p")
    case None
    with assms False have False by (simp add: Let_def)
    then show ?thesis ..
  next
    case (Some res)
    obtain zs q r1 where res: "res = (zs, q, r1)" by (cases res) auto
    with assms False Some have "ys = files (prune s p) @ zs" "p' = q" "r = r1"
      by (auto simp: Let_def)
    with False Some res show ?thesis by (intro descends [of zs]) simp_all
  qed
qed

lemma traverse_rec_grows:
  "traverse_rec fuel e rc depth s p = Some (ys, p', r) \<Longrightarrow> ps_le p p'"
proof (induction fuel arbitrary: depth s p ys p' r)
  case 0
  then show ?case by simp
next
  case (Suc fuel)
  from Suc.prems show ?case
  proof (cases rule: traverse_rec_Suc_Some)
    case stops
    then show ?thesis by (simp add: ps_le_refl)
  next
    case (descends zs)
    show ?thesis using descends(2) Suc.IH by (rule loop_dirs_grows [rotated])
  qed
qed

text \<open>
  C10. The prune set of a traversal only grows. A call of \<open>_traverse\<close> leaves it at
  least as large as it found it, also when an exception ends the call. In the loop over
  the directories, the matches of the prune globs in a directory are added before the
  descent into it, they are still there after the descent, and the set that the descent
  leaves is the one the remaining directories, its siblings, are visited with.
\<close>

theorem prune_set_only_grows:
  "(traverse_rec fuel e recurse depth s p = Some (ys, p', r) \<longrightarrow> ps_le p p')
   \<and> (loop_dirs (traverse_rec fuel e recurse depth) e src (d # ds) p = Some (ys, p', r) \<longrightarrow> ps_le p p')
   \<and> (loop_dirs (traverse_rec fuel e recurse depth) e src (d # ds) p = Some (ys, p', None) \<longrightarrow>
        (\<exists>ws ms q ys1 p1 ys2.
           working_set e src d = Inr ws
           \<and> resolve_globs e d (globs p) = Inr ms \<and> extend_prune e d p = Inr q
           \<and> traverse_rec fuel e recurse depth ws q = Some (ys1, p1, None)
           \<and> loop_dirs (traverse_rec fuel e recurse depth) e src ds p1 = Some (ys2, p', None)
           \<and> ys = ys1 @ ys2
           \<and> ps_le p q \<and> ps_le q p1 \<and> ps_le p1 p'
           \<and> (\<forall>m \<in> set ms. holds e m p1 \<and> holds e m p')))"
proof (intro conjI impI)
  assume "traverse_rec fuel e recurse depth s p = Some (ys, p', r)"
  then show "ps_le p p'" by (rule traverse_rec_grows)
next
  assume "loop_dirs (traverse_rec fuel e recurse depth) e src (d # ds) p = Some (ys, p', r)"
  then show "ps_le p p'" by (rule loop_dirs_grows [rotated]) (rule traverse_rec_grows)
next
  let ?rec = "traverse_rec fuel e recurse depth"
  assume "loop_dirs ?rec e src (d # ds) p = Some (ys, p', None)"
  then obtain ws q ys1 p1 ys2
    where w: "working_set e src d = Inr ws" and x: "extend_prune e d p = Inr q"
      and 1: "?rec ws q = Some (ys1, p1, None)"
      and 2: "loop_dirs ?rec e src ds p1 = Some (ys2, p', None)" and 3: "ys = ys1 @ ys2"
    by (rule loop_dirs_Cons_done)
  from x obtain ms where ms: "resolve_globs e d (globs p) = Inr ms" and q: "q = add e ms p"
    by (rule extend_prune_Inr)
  from x have o: "ps_le p q" by (rule extend_prune_grows)
  from 1 have a: "ps_le q p1" by (rule traverse_rec_grows)
  from 2 have b: "ps_le p1 p'" by (rule loop_dirs_grows [rotated]) (rule traverse_rec_grows)
  have "\<forall>m \<in> set ms. holds e m p1 \<and> holds e m p'"
  proof
    fix m assume "m \<in> set ms"
    then have "holds e m q" by (simp add: q add_holds)
    with a have "holds e m p1" by (rule holds_mono)
    with b have "holds e m p'" by (rule holds_mono)
    with \<open>holds e m p1\<close> show "holds e m p1 \<and> holds e m p'" ..
  qed
  with w ms x 1 2 3 o a b
  show "\<exists>ws ms q ys1 p1 ys2.
           working_set e src d = Inr ws
           \<and> resolve_globs e d (globs p) = Inr ms \<and> extend_prune e d p = Inr q
           \<and> ?rec ws q = Some (ys1, p1, None)
           \<and> loop_dirs ?rec e src ds p1 = Some (ys2, p', None)
           \<and> ys = ys1 @ ys2
           \<and> ps_le p q \<and> ps_le q p1 \<and> ps_le p1 p'
           \<and> (\<forall>m \<in> set ms. holds e m p1 \<and> holds e m p')"
    by blast
qed

theorem prune_set_only_grows_witness:
  "traverse_rec 5 ex_env True 0 \<lparr>dirs = [''/w/proj''], files = [], globs = [''*'']\<rparr>
       \<lparr>dirs = [], files = [], globs = [''*.py'']\<rparr>
     = Some ([], \<lparr>dirs = [],
          files = [''/w/proj/a.py'', ''/w/proj/build/x.py'', ''/w/proj/sub/b.py''], globs = [''*.py'']\<rparr>,
          None)
   \<and> ps_le \<lparr>dirs = [], files = [], globs = [''*.py'']\<rparr>
       \<lparr>dirs = [], files = [''/w/proj/a.py'', ''/w/proj/build/x.py'', ''/w/proj/sub/b.py''],
        globs = [''*.py'']\<rparr>
   \<and> (\<exists>ws q ys1 p1 ys2.
        working_set ex_env
            \<lparr>dirs = [''/w/proj/build'', ''/w/proj/sub''], files = [''/w/proj/a.py''], globs = [''*'']\<rparr>
            ''/w/proj/build'' = Inr ws
        \<and> extend_prune ex_env ''/w/proj/build'' \<lparr>dirs = [], files = [], globs = [''*.py'']\<rparr> = Inr q
        \<and> traverse_rec 4 ex_env True 2 ws q = Some (ys1, p1, None)
        \<and> loop_dirs (traverse_rec 4 ex_env True 2) ex_env
            \<lparr>dirs = [''/w/proj/build'', ''/w/proj/sub''], files = [''/w/proj/a.py''], globs = [''*'']\<rparr>
            [''/w/proj/sub''] p1
          = Some (ys2, \<lparr>dirs = [], files = [''/w/proj/build/x.py'', ''/w/proj/sub/b.py''],
                          globs = [''*.py'']\<rparr>, None)
        \<and> holds ex_env ''/w/proj/build/x.py'' p1)"
proof -
  let ?P = "\<lparr>dirs = [], files = [], globs = [''*.py'']\<rparr>"
  let ?P' = "\<lparr>dirs = [], files = [''/w/proj/a.py'', ''/w/proj/build/x.py'', ''/w/proj/sub/b.py''],
              globs = [''*.py'']\<rparr>"
  let ?P2 = "\<lparr>dirs = [], files = [''/w/proj/build/x.py'', ''/w/proj/sub/b.py''], globs = [''*.py'']\<rparr>"
  let ?src = "\<lparr>dirs = [''/w/proj/build'', ''/w/proj/sub''], files = [''/w/proj/a.py''], globs = [''*'']\<rparr>"
  have run: "traverse_rec 5 ex_env True 0 \<lparr>dirs = [''/w/proj''], files = [], globs = [''*'']\<rparr> ?P
      = Some ([], ?P', None)"
    by code_simp
  have loop: "loop_dirs (traverse_rec 4 ex_env True 2) ex_env ?src [''/w/proj/build'', ''/w/proj/sub''] ?P
      = Some ([], ?P2, None)"
    by code_simp
  have m: "resolve_globs ex_env ''/w/proj/build'' (globs ?P) = Inr [''/w/proj/build/x.py'']"
    by code_simp
  from run have le: "ps_le ?P ?P'"
    using prune_set_only_grows
      [where fuel = 5 and e = ex_env and recurse = True and depth = 0 and p = ?P and ys = "[]"
         and p' = ?P' and r = None]
    by blast
  from loop obtain ws ms q ys1 p1 ys2 where
    "working_set ex_env ?src ''/w/proj/build'' = Inr ws"
    "resolve_globs ex_env ''/w/proj/build'' (globs ?P) = Inr ms"
    "extend_prune ex_env ''/w/proj/build'' ?P = Inr q"
    "traverse_rec 4 ex_env True 2 ws q = Some (ys1, p1, None)"
    "loop_dirs (traverse_rec 4 ex_env True 2) ex_env ?src [''/w/proj/sub''] p1 = Some (ys2, ?P2, None)"
    "\<forall>m \<in> set ms. holds ex_env m p1 \<and> holds ex_env m ?P2"
    using prune_set_only_grows
      [where fuel = 4 and e = ex_env and recurse = True and depth = 2 and p = ?P and ys = "[]"
         and p' = ?P2 and src = ?src and d = "''/w/proj/build''" and ds = "[''/w/proj/sub'']"]
    by blast
  with m have "\<exists>ws q ys1 p1 ys2.
        working_set ex_env ?src ''/w/proj/build'' = Inr ws
        \<and> extend_prune ex_env ''/w/proj/build'' ?P = Inr q
        \<and> traverse_rec 4 ex_env True 2 ws q = Some (ys1, p1, None)
        \<and> loop_dirs (traverse_rec 4 ex_env True 2) ex_env ?src [''/w/proj/sub''] p1 = Some (ys2, ?P2, None)
        \<and> holds ex_env ''/w/proj/build/x.py'' p1"
    by auto
  with run le show ?thesis by blast
qed

section \<open>The working set of a directory\<close>

lemma set_to_set: "set (to_set xs) = set xs"
  by (simp add: to_set_def set_set_union)

lemma distinct_to_set: "distinct (to_set xs)"
  by (simp add: to_set_def distinct_set_union)

lemma set_resolve_paths: "set (resolve_paths e ps) = resolve_path e ` set ps"
  by (simp add: resolve_paths_def set_to_set)

lemma glob_all_Inr:
  "glob_all e d gs acc = Inr paths \<Longrightarrow>
     (\<forall>g \<in> set gs. glob e d g \<noteq> None)
     \<and> set paths = set acc \<union> {m. \<exists>g \<in> set gs. \<exists>ms. glob e d g = Some ms \<and> m \<in> set ms}"
proof (induction gs arbitrary: acc)
  case Nil
  then show ?case by simp
next
  case (Cons g gs)
  from Cons.prems obtain ms where g: "glob e d g = Some ms"
    and rest: "glob_all e d gs (set_union acc ms) = Inr paths"
    by (auto split: option.splits)
  from Cons.IH [OF rest] g show ?case by (auto simp: set_set_union)
qed

lemma resolve_globs_Inr:
  assumes "resolve_globs e d gs = Inr rs"
  shows "\<forall>g \<in> set gs. glob e d g \<noteq> None"
    and "set rs = resolve_path e ` {m. \<exists>g \<in> set gs. \<exists>ms. glob e d g = Some ms \<and> m \<in> set ms}"
proof -
  from assms obtain paths where p: "glob_all e d gs [] = Inr paths" and rs: "rs = resolve_paths e paths"
    by (auto simp: resolve_globs_def split: sum.splits)
  from glob_all_Inr [OF p] show "\<forall>g \<in> set gs. glob e d g \<noteq> None" by simp
  from glob_all_Inr [OF p] rs
  show "set rs = resolve_path e ` {m. \<exists>g \<in> set gs. \<exists>ms. glob e d g = Some ms \<and> m \<in> set ms}"
    by (simp add: set_resolve_paths)
qed


lemma working_set_Inr:
  assumes "working_set e src d = Inr ws"
  obtains entries matches where "iterdir e d = Some entries"
    and "resolve_globs e d (globs src) = Inr matches"
    and "ws = add e matches (add e (filter (is_dir e) entries) (PathSet_init e (globs src)))"
  using assms by (auto simp: working_set_def Let_def split: option.splits sum.splits)

lemma plain_expandvars: "plain e x \<Longrightarrow> expandvars e x = x"
  by (simp add: plain_def expandvars_def)

lemma add_plain_dir:
  assumes "x \<in> set xs" and "plain e x" and "is_dir e x"
  shows "x \<in> set (dirs (add e xs ps))"
proof -
  from assms(2) have x: "expandvars e x = x" "mk_path e x = x" "CHR ''*'' \<notin> set x"
    by (simp_all add: plain_def expandvars_def)
  with assms(3) have "dir_like e (expandvars e x)" by (simp add: dir_like_def)
  with assms(1) x have
    "\<exists>y. x = mk_path e (expandvars e y) \<and> y \<in> set xs \<and> CHR ''*'' \<notin> set (expandvars e y)
       \<and> dir_like e (expandvars e y)"
    by (intro exI [of _ x]) simp
  then show ?thesis by (simp add: dirs_add)
qed

lemma add_plain_file:
  assumes "x \<in> set xs" and "plain e x" and "is_file e x" and "\<not> is_dir e x"
  shows "x \<in> set (files (add e xs ps))"
proof -
  from assms(2) have x: "expandvars e x = x" "mk_path e x = x" "CHR ''*'' \<notin> set x"
    by (simp_all add: plain_def expandvars_def)
  with assms(3,4) have "\<not> dir_like e (expandvars e x)" by (simp add: dir_like_def)
  with assms(1) x have
    "\<exists>y. x = mk_path e (expandvars e y) \<and> y \<in> set xs \<and> CHR ''*'' \<notin> set (expandvars e y)
       \<and> \<not> dir_like e (expandvars e y)"
    by (intro exI [of _ x]) simp
  then show ?thesis by (simp add: files_add)
qed

lemma working_set_globs:
  assumes "working_set e src d = Inr ws"
    and "g \<in> set (globs src)" and "CHR ''*'' \<in> set g" and "CHR ''$'' \<notin> set g"
  shows "g \<in> set (globs ws)"
  using assms(1)
proof (rule working_set_Inr)
  fix entries matches
  assume "ws = add e matches (add e (filter (is_dir e) entries) (PathSet_init e (globs src)))"
  with assms(2-4) show ?thesis by (auto simp: PathSet_init_def globs_add expandvars_def)
qed

lemma working_set_subdirs:
  assumes "working_set e src d = Inr ws"
    and "iterdir e d = Some cs" and "c \<in> set cs" and "is_dir e c" and "plain e c"
  shows "c \<in> set (dirs ws)"
  using assms(1)
proof (rule working_set_Inr)
  fix entries matches
  assume en: "iterdir e d = Some entries"
    and ws: "ws = add e matches (add e (filter (is_dir e) entries) (PathSet_init e (globs src)))"
  from en assms(2,3,4) have "c \<in> set (filter (is_dir e) entries)" by simp
  then have "c \<in> set (dirs (add e (filter (is_dir e) entries) (PathSet_init e (globs src))))"
    using assms(5,4) by (rule add_plain_dir)
  then show ?thesis
    using add_grows [of "add e (filter (is_dir e) entries) (PathSet_init e (globs src))" e matches]
    by (auto simp: ws ps_le_def)
qed

lemma working_set_matches:
  assumes "working_set e src d = Inr ws"
    and "g \<in> set (globs src)" and "glob e d g = Some ms" and "m \<in> set ms"
    and "plain e (resolve_path e m)"
  shows "(is_dir e (resolve_path e m) \<longrightarrow> resolve_path e m \<in> set (dirs ws))
    \<and> (is_file e (resolve_path e m) \<and> \<not> is_dir e (resolve_path e m) \<longrightarrow>
          resolve_path e m \<in> set (files ws))"
  using assms(1)
proof (rule working_set_Inr)
  fix entries matches
  assume rg: "resolve_globs e d (globs src) = Inr matches"
    and ws: "ws = add e matches (add e (filter (is_dir e) entries) (PathSet_init e (globs src)))"
  from resolve_globs_Inr(2) [OF rg] assms(2-4) have "resolve_path e m \<in> set matches" by auto
  with assms(5) show ?thesis by (simp add: ws add_plain_dir add_plain_file)
qed

lemma loop_dirs_member:
  assumes rec: "\<And>s q ys q' r. rec s q = Some (ys, q', r) \<Longrightarrow> ps_le q q'"
  shows "loop_dirs rec e src ds p = Some (zs, p', None) \<Longrightarrow> d \<in> set ds \<Longrightarrow>
     \<exists>ws q ys1 q'. working_set e src d = Inr ws \<and> rec ws q = Some (ys1, q', None)
        \<and> set ys1 \<subseteq> set zs \<and> ps_le p q \<and> ps_le q' p'"
proof (induction ds arbitrary: p zs)
  case Nil
  then show ?case by simp
next
  case (Cons a ds)
  from Cons.prems(1) obtain ws q ys1 p1 ys2
    where w: "working_set e src a = Inr ws" and x: "extend_prune e a p = Inr q"
      and 1: "rec ws q = Some (ys1, p1, None)"
      and 2: "loop_dirs rec e src ds p1 = Some (ys2, p', None)" and 3: "zs = ys1 @ ys2"
    by (rule loop_dirs_Cons_done)
  from 1 have le1: "ps_le q p1" by (rule rec)
  have le2: "ps_le p1 p'" using rec 2 by (rule loop_dirs_grows)
  from x have le0: "ps_le p q" by (rule extend_prune_grows)
  show ?case
  proof (cases "d = a")
    case True
    with w 1 3 le0 le2 show ?thesis by auto
  next
    case False
    with Cons.prems(2) have "d \<in> set ds" by simp
    with Cons.IH [OF 2] obtain ws' q2 ys' q'
      where "working_set e src d = Inr ws'" "rec ws' q2 = Some (ys', q', None)"
        "set ys' \<subseteq> set ys2" "ps_le p1 q2" "ps_le q' p'"
      by blast
    moreover from le0 le1 have "ps_le p p1" by (rule ps_le_trans)
    ultimately show ?thesis using 3 by (auto intro: ps_le_trans)
  qed
qed

lemma traverse_rec_descends:
  assumes "traverse_rec (Suc fuel) e True depth s p = Some (ys, p', None)"
    and "d \<in> set (dirs (prune s p))"
  shows "\<exists>ws q ys1 q'. working_set e (prune s p) d = Inr ws
      \<and> traverse_rec fuel e True (depth + 1) ws q = Some (ys1, q', None)
      \<and> set ys1 \<subseteq> set ys \<and> ps_le p q \<and> ps_le q' p'"
  using assms(1)
proof (cases rule: traverse_rec_Suc_Some)
  case stops
  then show ?thesis by simp
next
  case (descends zs)
  have "\<exists>ws q ys1 q'. working_set e (prune s p) d = Inr ws
      \<and> traverse_rec fuel e True (depth + 1) ws q = Some (ys1, q', None)
      \<and> set ys1 \<subseteq> set zs \<and> ps_le p q \<and> ps_le q' p'"
    using traverse_rec_grows descends(2) assms(2)
    by (rule loop_dirs_member [where rec = "traverse_rec fuel e True (depth + 1)"])
  then obtain ws q ys1 q' where "working_set e (prune s p) d = Inr ws"
    "traverse_rec fuel e True (depth + 1) ws q = Some (ys1, q', None)"
    "set ys1 \<subseteq> set zs" "ps_le p q" "ps_le q' p'"
    by blast
  moreover from descends(3) have "set zs \<subseteq> set ys" by simp
  ultimately show ?thesis by blast
qed

text \<open>
  C4 (amended). In a recursive traversal every directory that survives the pruning is
  visited with a working set made by \<open>add\<close> from the surviving glob patterns of the
  parent, the immediate subdirectories and the resolved matches of those patterns in the
  directory. For names that \<open>add\<close> takes as they are, this set holds the parent's
  patterns, the immediate subdirectories as directories, the matches that are
  directories as directories and the matches that are regular files as files: a pattern
  given at the root is applied in every directory visited.
\<close>

theorem working_set_built_by_add:
  "(working_set e src d = Inr ws \<longrightarrow>
      (\<forall>g \<in> set (globs src). CHR ''*'' \<in> set g \<and> CHR ''$'' \<notin> set g \<longrightarrow> g \<in> set (globs ws))
      \<and> (\<forall>cs. iterdir e d = Some cs \<longrightarrow>
            (\<forall>c \<in> set cs. is_dir e c \<and> plain e c \<longrightarrow> c \<in> set (dirs ws)))
      \<and> (\<forall>g \<in> set (globs src). \<forall>ms. glob e d g = Some ms \<longrightarrow>
            (\<forall>m \<in> set ms. plain e (resolve_path e m) \<longrightarrow>
               (is_dir e (resolve_path e m) \<longrightarrow> resolve_path e m \<in> set (dirs ws))
               \<and> (is_file e (resolve_path e m) \<and> \<not> is_dir e (resolve_path e m) \<longrightarrow>
                     resolve_path e m \<in> set (files ws)))))
   \<and> (traverse_rec (Suc fuel) e True depth s p = Some (ys, p', None) \<longrightarrow>
        (\<forall>x \<in> set (dirs (prune s p)).
           \<exists>wx q ys1 q'. working_set e (prune s p) x = Inr wx
             \<and> traverse_rec fuel e True (depth + 1) wx q = Some (ys1, q', None)
             \<and> set ys1 \<subseteq> set ys))"
proof (intro conjI impI ballI allI)
  fix g assume "working_set e src d = Inr ws" "g \<in> set (globs src)"
    "CHR ''*'' \<in> set g \<and> CHR ''$'' \<notin> set g"
  then show "g \<in> set (globs ws)" by (simp add: working_set_globs)
next
  fix cs c assume "working_set e src d = Inr ws" "iterdir e d = Some cs" "c \<in> set cs"
    "is_dir e c \<and> plain e c"
  then show "c \<in> set (dirs ws)" by (simp add: working_set_subdirs)
next
  fix g ms m
  assume a: "working_set e src d = Inr ws" "g \<in> set (globs src)" "glob e d g = Some ms" "m \<in> set ms"
    "plain e (resolve_path e m)"
  { assume "is_dir e (resolve_path e m)"
    with working_set_matches [OF a] show "resolve_path e m \<in> set (dirs ws)" by blast }
  { assume "is_file e (resolve_path e m) \<and> \<not> is_dir e (resolve_path e m)"
    with working_set_matches [OF a] show "resolve_path e m \<in> set (files ws)" by blast }
next
  fix x
  assume "traverse_rec (Suc fuel) e True depth s p = Some (ys, p', None)" "x \<in> set (dirs (prune s p))"
  from traverse_rec_descends [OF this]
  show "\<exists>wx q ys1 q'. working_set e (prune s p) x = Inr wx
      \<and> traverse_rec fuel e True (depth + 1) wx q = Some (ys1, q', None) \<and> set ys1 \<subseteq> set ys"
    by blast
qed

theorem working_set_built_by_add_witness:
  "(\<exists>ws. working_set ex_env \<lparr>dirs = [''/w/proj''], files = [], globs = [''*.py'']\<rparr> ''/w/proj'' = Inr ws
      \<and> ''*.py'' \<in> set (globs ws)
      \<and> ''/w/proj/sub'' \<in> set (dirs ws)
      \<and> ''/w/proj/a.py'' \<in> set (files ws))
   \<and> traverse_rec 5 ex_env True 0 \<lparr>dirs = [''/w/proj''], files = [], globs = [''*.py'']\<rparr> empty_ps
        = Some ([''/w/proj/a.py'', ''/w/proj/build/x.py'', ''/w/proj/sub/b.py''], empty_ps, None)
   \<and> (\<exists>wx q ys1 q'.
        working_set ex_env (prune \<lparr>dirs = [''/w/proj''], files = [], globs = [''*.py'']\<rparr> empty_ps)
            ''/w/proj'' = Inr wx
        \<and> traverse_rec 4 ex_env True (0 + 1) wx q = Some (ys1, q', None)
        \<and> set ys1 \<subseteq> set [''/w/proj/a.py'', ''/w/proj/build/x.py'', ''/w/proj/sub/b.py''])"
proof -
  let ?S = "\<lparr>dirs = [''/w/proj''], files = [], globs = [''*.py'']\<rparr>"
  let ?W = "\<lparr>dirs = [''/w/proj/build'', ''/w/proj/sub''], files = [''/w/proj/a.py''], globs = [''*.py'']\<rparr>"
  let ?ys = "[''/w/proj/a.py'', ''/w/proj/build/x.py'', ''/w/proj/sub/b.py'']"
  have w: "working_set ex_env ?S ''/w/proj'' = Inr ?W" by code_simp
  note T = working_set_built_by_add [where e = ex_env and src = ?S and d = "''/w/proj''" and ws = ?W
      and fuel = 4 and depth = 0 and s = ?S and p = empty_ps and ys = ?ys and p' = empty_ps]
  have g: "''*.py'' \<in> set (globs ?S)" "CHR ''*'' \<in> set ''*.py'' \<and> CHR ''$'' \<notin> set ''*.py''"
    by simp_all
  have c: "iterdir ex_env ''/w/proj'' = Some [''/w/proj/a.py'', ''/w/proj/build'', ''/w/proj/sub'']"
    "''/w/proj/sub'' \<in> set [''/w/proj/a.py'', ''/w/proj/build'', ''/w/proj/sub'']"
    "is_dir ex_env ''/w/proj/sub'' \<and> plain ex_env ''/w/proj/sub''"
    by code_simp+
  have m: "glob ex_env ''/w/proj'' ''*.py'' = Some [''/w/proj/a.py'']"
    "''/w/proj/a.py'' \<in> set [''/w/proj/a.py'']"
    "resolve_path ex_env ''/w/proj/a.py'' = ''/w/proj/a.py''"
    "plain ex_env ''/w/proj/a.py''"
    "is_file ex_env ''/w/proj/a.py'' \<and> \<not> is_dir ex_env ''/w/proj/a.py''"
    by code_simp+
  have run: "traverse_rec (Suc 4) ex_env True 0 ?S empty_ps = Some (?ys, empty_ps, None)"
    by code_simp
  have d: "''/w/proj'' \<in> set (dirs (prune ?S empty_ps))"
    by code_simp
  from T w g have 1: "''*.py'' \<in> set (globs ?W)" by blast
  from T w c have 2: "''/w/proj/sub'' \<in> set (dirs ?W)" by blast
  from T w g(1) m have 3: "''/w/proj/a.py'' \<in> set (files ?W)" by metis
  from T run d have 4: "\<exists>wx q ys1 q'.
        working_set ex_env (prune ?S empty_ps) ''/w/proj'' = Inr wx
        \<and> traverse_rec 4 ex_env True (0 + 1) wx q = Some (ys1, q', None) \<and> set ys1 \<subseteq> set ?ys"
    by blast
  from run have 5: "traverse_rec 5 ex_env True 0 ?S empty_ps = Some (?ys, empty_ps, None)"
    by simp
  from w 1 2 3 have "\<exists>ws. working_set ex_env ?S ''/w/proj'' = Inr ws
      \<and> ''*.py'' \<in> set (globs ws) \<and> ''/w/proj/sub'' \<in> set (dirs ws) \<and> ''/w/proj/a.py'' \<in> set (files ws)"
    by blast
  with 4 5 show ?thesis by blast
qed

text \<open>
  The directory \<open>build\<close> is a match of the pattern \<open>*\<close> in \<open>proj\<close>; in the working
  set of \<open>proj\<close> it is a directory specifier and it is not among the files.
\<close>

theorem glob_match_directory_counterexample:
  "resolve_globs ex_env ''/w/proj'' [''*''] = Inr [''/w/proj/a.py'', ''/w/proj/build'', ''/w/proj/sub'']
   \<and> working_set ex_env \<lparr>dirs = [], files = [], globs = [''*'']\<rparr> ''/w/proj''
       = Inr \<lparr>dirs = [''/w/proj/build'', ''/w/proj/sub''], files = [''/w/proj/a.py''], globs = [''*'']\<rparr>"
  by code_simp

section \<open>Pruning and the order of PathSets\<close>


lemma prune_mono: "ps_le s t \<Longrightarrow> ps_le (prune s p) (prune t p)"
  by (auto simp: ps_le_def dirs_prune files_prune globs_prune)

lemma prune_antimono: "ps_le p q \<Longrightarrow> ps_le (prune s q) (prune s p)"
  by (auto simp: ps_le_def dirs_prune files_prune globs_prune)




section \<open>Where an exception comes from\<close>







section \<open>More fuel changes nothing\<close>





section \<open>The calls of a traversal and what they yield\<close>











section \<open>Traversal without recursion\<close>

lemma traverse_rec_below:
  "traverse_rec (Suc fuel) e False (Suc depth) s q = Some (files (prune s q), q, None)"
  by (simp add: Let_def)








text \<open>
  An absolute source pattern passes the validation, and the library refuses it in the
  first directory: the traversal ends with that exception and yields nothing, whatever
  the other patterns match.
\<close>

lemma nonrecursive_glob_raises_example:
  "traverse 3 ex_env (PathSet_init ex_env [''proj/'', ''*.py'', ''/w/proj/*.py'']) (PathSet_init ex_env []) False
     = Some (Inr ([], Some (GlobError ''/w/proj'' ''/w/proj/*.py'')))"
  by code_simp

section \<open>Recursive traversal: termination on a tree\<close>













text \<open>
  The working directory of the example holds a named pipe. With no source given, the
  pipe is matched by \<open>*\<close> and, having no period, becomes a directory specifier of the
  working set, here after \<open>proj\<close>; listing it is refused, and the traversal ends
  there, after the files yielded before. Which files these are depends on the order of
  the directories in the set.
\<close>

lemma recursive_listing_raises_example:
  "traverse 5 ex_env (PathSet_init ex_env []) (PathSet_init ex_env []) True
     = Some (Inr ([''/w/app.sock'', ''/w/proj/a.py'', ''/w/proj/build/x.py'', ''/w/proj/sub/b.py''],
                 Some (ListError ''/w/pipe'')))"
  by code_simp

text \<open>
  Pruning is by the prune set of the call: the sources \<open>proj/a.py\<close> and \<open>proj/\<close> with
  the prune pattern \<open>*.py\<close>. The file \<open>a.py\<close> is yielded by the first call, before the
  pattern is resolved in \<open>proj\<close>; the prune set the traversal leaves holds it.
\<close>

lemma prune_of_the_call_example:
  "traverse_rec 5 ex_env True 0
      (resolve ex_env (default_fill ex_env (PathSet_init ex_env [''proj/a.py'', ''proj/''])))
      (resolve ex_env (PathSet_init ex_env [''*.py'']))
     = Some ([''/w/proj/a.py''],
         \<lparr>dirs = [], files = [''/w/proj/a.py'', ''/w/proj/build/x.py'', ''/w/proj/sub/b.py''],
          globs = [''*.py'']\<rparr>, None)"
  by code_simp

end
